theory Spec2Isabelle
  imports Complex_Main "HOL-Library.Sublist" "HOL-Library.Log_Nat"
begin

section \<open>JavaScript numbers\<close>

text \<open>
  A JavaScript number is a binary64 value. It is modelled by the real number that it
  denotes, and every arithmetic operation of the program on numbers that need not be
  integers is the exact operation followed by \<open>double\<close>, the rounding to the nearest number
  with a significand of 53 bits, ties to the even significand. The range of the exponent is
  not bounded in the model: no value of the program comes near the ends of the range of
  binary64. Counters, indices and millisecond timestamps are \<^typ>\<open>int\<close>, and the pixel
  dimensions of DOM elements, which are unsigned 32 bit integers, are \<^typ>\<open>nat\<close>; binary64
  holds these exactly.
\<close>

text \<open>The nearest integer, ties to even.\<close>

definition round_even :: "real \<Rightarrow> int" where
  "round_even r =
     (let f = \<lfloor>r\<rfloor>;
          d = r - of_int f
      in if d < 1 / 2 then f else if 1 / 2 < d then f + 1 else if even f then f else f + 1)"

text \<open>The exponent of a positive number \<open>a\<close>: the \<open>e\<close> with \<open>2 powi e \<le> a < 2 powi (e + 1)\<close>.\<close>

definition expo :: "real \<Rightarrow> int" where
  "expo a = (if 1 \<le> a then bitlen \<lfloor>a\<rfloor> - 1 else - bitlen (\<lceil>1 / a\<rceil> - 1))"

definition double :: "real \<Rightarrow> real" where
  "double r =
     (if r = 0 then 0
      else (let u = 2 powi (expo \<bar>r\<bar> - 52)
            in sgn r * (of_int (round_even (\<bar>r\<bar> / u)) * u)))"

section \<open>Data model (types.ts)\<close>

text \<open>
  Strings are lists of characters, one per UTF-16 code unit. The field \<open>id\<close> of
  \<open>PhotoData\<close> is called \<open>id_photo\<close>, since \<open>id\<close> is the identity function of HOL.
\<close>

record PhotoData =
  id_photo :: string
  url :: string
  timestamp :: int
  x :: real
  y :: real
  rotation :: real
  isDeveloping :: bool

text \<open>The part of a \<open>DOMRect\<close> that the program reads (\<open>top\<close> is a constant of HOL).\<close>

record DOMRect =
  left_rect :: real
  top_rect :: real
  width_rect :: real
  height_rect :: real

section \<open>The wall controller (App.tsx)\<close>

text \<open>The two \<open>useState\<close> cells of \<open>App\<close>, with their initial values.\<close>

record App =
  photos :: "PhotoData list"
  topZIndex :: int

definition App_init :: App where
  "App_init = \<lparr>photos = [], topZIndex = 10\<rparr>"

text \<open>
  \<open>handleTakePhoto\<close> reads three values from its environment: the result of
  \<open>crypto.randomUUID()\<close>, of \<open>Date.now()\<close> and of \<open>Math.random()\<close>. They are arguments here.
\<close>

definition handleTakePhoto ::
  "string \<Rightarrow> int \<Rightarrow> real \<Rightarrow> string \<Rightarrow> DOMRect \<Rightarrow> App \<Rightarrow> App" where
  "handleTakePhoto randomUUID now random dataUrl cameraRect s =
     (let newPhoto =
        \<lparr>id_photo = randomUUID,
         url = dataUrl,
         timestamp = now,
         x = double (double (left_rect cameraRect + double (width_rect cameraRect / 2)) - 100),
         y = double (top_rect cameraRect - 300),
         rotation = double (double (random * 6) - 3),
         isDeveloping = True\<rparr>
      in s\<lparr>photos := photos s @ [newPhoto]\<rparr>)"

definition handleDelete :: "string \<Rightarrow> App \<Rightarrow> App" where
  "handleDelete i s = s\<lparr>photos := filter (\<lambda>p. id_photo p \<noteq> i) (photos s)\<rparr>"

text \<open>
  \<open>String.prototype.slice\<close> for two indices that are not negative, and the anchor element
  with the two attributes that \<open>handleDownload\<close> sets. The document is the list of anchors
  under \<open>document.body\<close> and the list of anchors that were clicked, oldest first.
\<close>

definition slice :: "nat \<Rightarrow> nat \<Rightarrow> string \<Rightarrow> string" where
  "slice b e str = take (e - b) (drop b str)"

record HTMLAnchorElement =
  href :: string
  download :: string

record Document =
  body :: "HTMLAnchorElement list"
  clicked :: "HTMLAnchorElement list"

definition appendChild :: "HTMLAnchorElement \<Rightarrow> Document \<Rightarrow> Document" where
  "appendChild link d = d\<lparr>body := body d @ [link]\<rparr>"

definition click :: "HTMLAnchorElement \<Rightarrow> Document \<Rightarrow> Document" where
  "click link d = d\<lparr>clicked := clicked d @ [link]\<rparr>"

text \<open>\<open>removeChild\<close> is only called on the node appended last.\<close>

definition removeChild :: "HTMLAnchorElement \<Rightarrow> Document \<Rightarrow> Document" where
  "removeChild link d = d\<lparr>body := butlast (body d)\<rparr>"

definition handleDownload :: "string \<Rightarrow> string \<Rightarrow> App \<times> Document \<Rightarrow> App \<times> Document" where
  "handleDownload i u sd =
     (let link = \<lparr>href = u, download = ''instax-'' @ slice 0 8 i @ ''.jpg''\<rparr>;
          d1 = appendChild link (snd sd);
          d2 = click link d1;
          d3 = removeChild link d2
      in (fst sd, d3))"

definition handleBringToFront :: "string \<Rightarrow> App \<Rightarrow> App" where
  "handleBringToFront i s = s\<lparr>topZIndex := topZIndex s + 1\<rparr>"

text \<open>
  The render of the wall: one \<open>Polaroid\<close> per photo, in list order, with the props that
  \<open>App\<close> passes. \<open>onFocus\<close> of a card is \<open>handleBringToFront\<close> of its identifier.
\<close>

record PolaroidProps =
  photo :: PhotoData
  zIndex :: int

definition render :: "App \<Rightarrow> PolaroidProps list" where
  "render s = map (\<lambda>(index, p). \<lparr>photo = p, zIndex = int index + 10\<rparr>) (enumerate 0 (photos s))"

text \<open>
  The geometry of a rendered card (Polaroid.tsx). Its element has the class \<open>w-56\<close>, a
  width of 14 rem, which is 224 px (the comment there counts \<open>w-52\<close> as 208 px), and it is
  placed with its left edge at \<open>photo.x\<close>.
\<close>

definition width_Polaroid :: real where
  "width_Polaroid = 224"

definition centerX_Polaroid :: "PhotoData \<Rightarrow> real" where
  "centerX_Polaroid p = x p + width_Polaroid / 2"

definition centerX_rect :: "DOMRect \<Rightarrow> real" where
  "centerX_rect r = left_rect r + width_rect r / 2"

text \<open>The stacking layer with which the card \<open>i\<close> is rendered (the first card of that key).\<close>

definition zIndex_of :: "string \<Rightarrow> App \<Rightarrow> int option" where
  "zIndex_of i s = map_option zIndex (find (\<lambda>c. id_photo (photo c) = i) (render s))"

text \<open>
  The four operations of the wall, on the wall state and the document, and a run of several
  of them.
\<close>

datatype action =
  TakePhoto string int real string DOMRect
  | Delete string
  | Download string string
  | BringToFront string

fun step :: "action \<Rightarrow> App \<times> Document \<Rightarrow> App \<times> Document" where
  "step (TakePhoto u n r d c) sd = (handleTakePhoto u n r d c (fst sd), snd sd)"
| "step (Delete i) sd = (handleDelete i (fst sd), snd sd)"
| "step (Download i u) sd = handleDownload i u sd"
| "step (BringToFront i) sd = (handleBringToFront i (fst sd), snd sd)"

fun run :: "action list \<Rightarrow> App \<times> Document \<Rightarrow> App \<times> Document" where
  "run [] sd = sd"
| "run (a # as) sd = run as (step a sd)"

text \<open>The counter values that successive calls of \<open>handleBringToFront\<close> produce.\<close>

fun counters :: "string list \<Rightarrow> App \<Rightarrow> int list" where
  "counters [] s = []"
| "counters (i # is) s = topZIndex (handleBringToFront i s) # counters is (handleBringToFront i s)"

section \<open>The card (components/Polaroid.tsx)\<close>

text \<open>
  The state of one \<open>Polaroid\<close>: its \<open>useState\<close> cell \<open>developed\<close>, and whether the timer
  that its effect started is pending. React runs the cleanup of an effect before it runs
  the effect again, so at most one timer is pending.
\<close>

record Polaroid =
  developed :: bool
  timer :: bool

text \<open>\<open>useState(false)\<close>: the state at the first render, before the effect has run.\<close>

definition Polaroid_init :: Polaroid where
  "Polaroid_init = \<lparr>developed = False, timer = False\<rparr>"

definition setDeveloped :: "bool \<Rightarrow> Polaroid \<Rightarrow> Polaroid" where
  "setDeveloped b c = c\<lparr>developed := b\<rparr>"

text \<open>The body of the effect, the cleanup that its first branch returns, and the timer's callback.\<close>

definition effect :: "PhotoData \<Rightarrow> Polaroid \<Rightarrow> Polaroid" where
  "effect ph c = (if isDeveloping ph then c\<lparr>timer := True\<rparr> else setDeveloped True c)"

definition cleanup :: "PhotoData \<Rightarrow> Polaroid \<Rightarrow> Polaroid" where
  "cleanup ph c = (if isDeveloping ph then c\<lparr>timer := False\<rparr> else c)"

definition timeout :: "Polaroid \<Rightarrow> Polaroid" where
  "timeout c = (if timer c then setDeveloped True (c\<lparr>timer := False\<rparr>) else c)"

text \<open>Mounting a card: the first render and then its effect.\<close>

definition mount :: "PhotoData \<Rightarrow> Polaroid" where
  "mount ph = effect ph Polaroid_init"

text \<open>
  What can happen to a mounted card, in any order: the effect runs (the dependency
  \<open>photo.isDeveloping\<close> changed), a cleanup runs, the timer fires.
\<close>

datatype event = Effect PhotoData | Cleanup PhotoData | Timeout

fun Polaroid_step :: "event \<Rightarrow> Polaroid \<Rightarrow> Polaroid" where
  "Polaroid_step (Effect ph) c = effect ph c"
| "Polaroid_step (Cleanup ph) c = cleanup ph c"
| "Polaroid_step Timeout c = timeout c"

fun Polaroid_run :: "event list \<Rightarrow> Polaroid \<Rightarrow> Polaroid" where
  "Polaroid_run [] c = c"
| "Polaroid_run (e # es) c = Polaroid_run es (Polaroid_step e c)"

text \<open>The values of \<open>developed\<close> along a run, the starting state first.\<close>

fun developed_trace :: "event list \<Rightarrow> Polaroid \<Rightarrow> bool list" where
  "developed_trace [] c = [developed c]"
| "developed_trace (e # es) c = developed c # developed_trace es (Polaroid_step e c)"

section \<open>The capture source (the Camera component)\<close>

type_synonym MediaStream = string

record HTMLVideoElement =
  videoWidth :: nat
  videoHeight :: nat
  srcObject :: "MediaStream option"

text \<open>The four source arguments of \<open>drawImage\<close>, and the whole call.\<close>

record Crop =
  sourceX :: real
  sourceY :: real
  sourceWidth :: real
  sourceHeight :: real

record DrawImage =
  src :: Crop
  dx :: real
  dy :: real
  dWidth :: real
  dHeight :: real

text \<open>
  The canvas: its raster dimensions, the horizontal part of the context's transform
  (\<open>(a, e)\<close> maps \<open>px\<close> to \<open>a * px + e\<close>) and the image drawn on it. Assigning \<open>canvas.width\<close>
  or \<open>canvas.height\<close> clears the raster and resets the context.
\<close>

record HTMLCanvasElement =
  width_canvas :: nat
  height_canvas :: nat
  transform :: "real \<times> real"
  drawn :: "DrawImage option"

definition translate :: "real \<Rightarrow> HTMLCanvasElement \<Rightarrow> HTMLCanvasElement" where
  "translate tx cv = cv\<lparr>transform := (fst (transform cv), fst (transform cv) * tx + snd (transform cv))\<rparr>"

definition scale :: "real \<Rightarrow> HTMLCanvasElement \<Rightarrow> HTMLCanvasElement" where
  "scale sx cv = cv\<lparr>transform := (fst (transform cv) * sx, snd (transform cv))\<rparr>"

definition drawImage :: "Crop \<Rightarrow> real \<Rightarrow> real \<Rightarrow> real \<Rightarrow> real \<Rightarrow> HTMLCanvasElement \<Rightarrow> HTMLCanvasElement" where
  "drawImage cr x0 y0 w0 h0 cv =
     cv\<lparr>drawn := Some \<lparr>src = cr, dx = x0, dy = y0, dWidth = w0, dHeight = h0\<rparr>\<rparr>"

text \<open>
  The state of the component: its four \<open>useState\<close> cells, its three refs (a ref is \<open>None\<close>
  while its element is not rendered; \<open>cameraBodyRef\<close> is read through
  \<open>getBoundingClientRect\<close> only), and two logs: the calls of \<open>console.error\<close>, each with
  its arguments, and how often \<open>getUserMedia\<close> was called.
\<close>

record Camera =
  isStreaming :: bool
  permissionError :: bool
  isFlashing :: bool
  ejectingPhoto :: "string option"
  videoRef :: "HTMLVideoElement option"
  canvasRef :: "HTMLCanvasElement option"
  cameraBodyRef :: "DOMRect option"
  console :: "string list list"
  requests :: nat

definition Camera_init :: "HTMLVideoElement \<Rightarrow> HTMLCanvasElement \<Rightarrow> DOMRect \<Rightarrow> Camera" where
  "Camera_init video canvas rect =
     \<lparr>isStreaming = False, permissionError = False, isFlashing = False, ejectingPhoto = None,
      videoRef = Some video, canvasRef = Some canvas, cameraBodyRef = Some rect,
      console = [], requests = 0\<rparr>"

text \<open>What the lens shows: the placeholder or the video element.\<close>

datatype lens = CameraOFF | VideoFeed

definition lens_of :: "Camera \<Rightarrow> lens" where
  "lens_of c = (if permissionError c then CameraOFF else VideoFeed)"

text \<open>
  \<open>setPermissionError\<close> with the render that follows it: the video element is rendered only
  while \<open>permissionError\<close> is false, and React clears the ref of an element that it removes.
\<close>

definition setPermissionError :: "bool \<Rightarrow> Camera \<Rightarrow> Camera" where
  "setPermissionError b c =
     (if b then c\<lparr>permissionError := True, videoRef := None\<rparr> else c\<lparr>permissionError := False\<rparr>)"

text \<open>
  \<open>setupCamera\<close>, given how the promise of \<open>getUserMedia\<close> settles: \<open>Inl err\<close> when it
  rejects (\<open>err\<close> is the text of what was thrown), \<open>Inr stream\<close> when it resolves.
\<close>

definition setupCamera :: "string + MediaStream \<Rightarrow> Camera \<Rightarrow> Camera" where
  "setupCamera getUserMedia c =
     (let c1 = c\<lparr>requests := requests c + 1\<rparr> in
      case getUserMedia of
        Inr stream \<Rightarrow>
          (case videoRef c1 of
             Some video \<Rightarrow> c1\<lparr>videoRef := Some (video\<lparr>srcObject := Some stream\<rparr>), isStreaming := True\<rparr>
           | None \<Rightarrow> c1)
      | Inl err \<Rightarrow> setPermissionError True
          (c1\<lparr>console := console c1 @ [[''Error accessing camera:'', err]]\<rparr>))"

text \<open>
  The comparison \<open>videoRatio > targetRatio\<close>, where \<open>videoRatio\<close> is the rounded quotient
  of the video's width and height. In JavaScript a positive width divided by the height 0
  is \<open>Infinity\<close>, which is greater than every ratio, and 0 divided by 0 is \<open>NaN\<close>, which
  is greater than nothing.
\<close>

definition videoRatio_gt :: "HTMLVideoElement \<Rightarrow> real \<Rightarrow> bool" where
  "videoRatio_gt video targetRatio =
     (if videoHeight video = 0 then videoWidth video \<noteq> 0
      else double (real (videoWidth video) / real (videoHeight video)) > targetRatio)"

text \<open>
  The centre crop of \<open>handleCapture\<close>, for the target size \<open>width\<close> by \<open>height\<close>, with
  every operation rounded as the program computes it (\<open>sW\<close> and \<open>sH\<close> are the program's
  \<open>sourceWidth\<close> and \<open>sourceHeight\<close>).
\<close>

definition centerCrop :: "HTMLVideoElement \<Rightarrow> nat \<Rightarrow> nat \<Rightarrow> Crop" where
  "centerCrop video width height =
     (let targetRatio = double (real width / real height) in
      if videoRatio_gt video targetRatio then
        (let sH = real (videoHeight video);
             sW = double (sH * targetRatio)
         in \<lparr>sourceX = double (double (real (videoWidth video) - sW) / 2), sourceY = 0,
             sourceWidth = sW, sourceHeight = sH\<rparr>)
      else
        (let sW = real (videoWidth video);
             sH = double (sW / targetRatio)
         in \<lparr>sourceX = 0, sourceY = double (double (real (videoHeight video) - sH) / 2),
             sourceWidth = sW, sourceHeight = sH\<rparr>))"

text \<open>
  \<open>handleCapture\<close>. \<open>toDataURL\<close> is the browser's encoder and \<open>getContext\<close> says whether
  the canvas gave a 2D context. The second result is the call of \<open>onTakePhoto\<close> that is
  scheduled for 600 ms later, if there is one; the two timers are events of the component.
\<close>

definition handleCapture ::
  "(HTMLCanvasElement \<Rightarrow> string) \<Rightarrow> bool \<Rightarrow> Camera \<Rightarrow> Camera \<times> (string \<times> DOMRect) option" where
  "handleCapture toDataURL getContext c =
     (if videoRef c = None \<or> canvasRef c = None \<or> cameraBodyRef c = None then (c, None)
      else
        (let c1 = c\<lparr>isFlashing := True\<rparr>;
             video = the (videoRef c);
             canvas = the (canvasRef c)
         in if getContext then
              (let width = 460;
                   height = 620;
                   canvas1 = canvas\<lparr>width_canvas := width, height_canvas := height,
                                    transform := (1, 0), drawn := None\<rparr>;
                   canvas2 = scale (- 1) (translate (real width) canvas1);
                   canvas3 = drawImage (centerCrop video width height) 0 0 (real width) (real height) canvas2;
                   dataUrl = toDataURL canvas3;
                   c2 = c1\<lparr>canvasRef := Some canvas3, ejectingPhoto := Some dataUrl\<rparr>;
                   rect = the (cameraBodyRef c)
               in (c2, Some (dataUrl, rect)))
            else (c1, None)))"

text \<open>
  What can happen to the mounted component, in any order: the shutter is clicked, the
  200 ms timer of the flash fires, the 600 ms timer of the hand-over fires.
\<close>

datatype Camera_event = Shutter | FlashTimeout | HandoffTimeout

fun Camera_step :: "(HTMLCanvasElement \<Rightarrow> string) \<Rightarrow> bool \<Rightarrow> Camera_event \<Rightarrow> Camera \<Rightarrow> Camera" where
  "Camera_step toDataURL getContext Shutter c = fst (handleCapture toDataURL getContext c)"
| "Camera_step toDataURL getContext FlashTimeout c = c\<lparr>isFlashing := False\<rparr>"
| "Camera_step toDataURL getContext HandoffTimeout c = c\<lparr>ejectingPhoto := None\<rparr>"

fun Camera_run :: "(HTMLCanvasElement \<Rightarrow> string) \<Rightarrow> bool \<Rightarrow> Camera_event list \<Rightarrow> Camera \<Rightarrow> Camera" where
  "Camera_run toDataURL getContext [] c = c"
| "Camera_run toDataURL getContext (e # es) c =
     Camera_run toDataURL getContext es (Camera_step toDataURL getContext e c)"

section \<open>JavaScript numbers: proofs\<close>

text \<open>
  The rounding is within half a unit of the last place, so within \<open>\<bar>r\<bar> / 2 ^ 53\<close> of its
  argument; it is the identity on what it returns and on integers below \<open>2 ^ 53\<close>, and it
  commutes with halving. \<open>double_evalI\<close> computes it at a given number from the binade of
  that number.
\<close>

lemma round_even_error: "\<bar>of_int (round_even r) - r\<bar> \<le> 1 / 2"
  unfolding round_even_def Let_def by (auto simp: abs_if) linarith+

lemma round_even_of_int: "round_even (of_int n) = n"
  by (simp add: round_even_def)

lemma int_bounds_real:
  fixes n :: int
  assumes "2 ^ j \<le> n" "n < 2 ^ k"
  shows "(2::real) ^ j \<le> of_int n" "of_int n + 1 \<le> (2::real) ^ k"
proof -
  have "(of_int (2 ^ j) :: real) \<le> of_int n" using assms(1) by (simp only: of_int_le_iff)
  then show "(2::real) ^ j \<le> of_int n" by simp
  have "n + 1 \<le> 2 ^ k" using assms(2) by simp
  then have "(of_int (n + 1) :: real) \<le> of_int (2 ^ k)" by (simp only: of_int_le_iff)
  then show "of_int n + 1 \<le> (2::real) ^ k" by simp
qed

lemma expo_bounds:
  assumes "0 < a"
  shows "2 powi (expo a) \<le> a \<and> a < 2 powi (expo a + 1)"
proof (cases "1 \<le> a")
  case True
  define n where "n = \<lfloor>a\<rfloor>"
  have n1: "1 \<le> n" using True by (simp add: n_def le_floor_iff)
  have n2: "of_int n \<le> a" by (simp add: n_def)
  have n3: "a < of_int n + 1" by (simp add: n_def)
  define k where "k = bitlen n"
  have b: "2 ^ nat (k - 1) \<le> n" "n < 2 ^ nat k"
    using bitlen_bounds[OF less_le_trans[OF zero_less_one n1]] by (simp_all add: k_def)
  have k1: "1 \<le> k" using n1 by (simp add: k_def bitlen_alt_def)
  have e: "expo a = k - 1" using True by (simp add: expo_def k_def n_def)
  have p1: "(2::real) powi (k - 1) = 2 ^ nat (k - 1)" using k1 by (simp add: power_int_def)
  have p2: "(2::real) powi (k - 1 + 1) = 2 ^ nat k" using k1 by (simp add: power_int_def)
  note r = int_bounds_real[OF b]
  have "2 powi (expo a) \<le> a" unfolding e p1 using r(1) n2 by linarith
  moreover have "a < 2 powi (expo a + 1)" unfolding e p2 using r(2) n3 by linarith
  ultimately show ?thesis by simp
next
  case False
  define yy where "yy = 1 / a"
  have y1: "1 < yy" using False assms by (simp add: yy_def)
  define n where "n = \<lceil>yy\<rceil> - 1"
  have "2 \<le> \<lceil>yy\<rceil>" using y1 by (simp add: le_ceiling_iff)
  then have n1: "1 \<le> n" by (simp add: n_def)
  have n2: "of_int n < yy" using ceiling_correct[of yy] by (simp add: n_def)
  have n3: "yy \<le> of_int n + 1" using ceiling_correct[of yy] by (simp add: n_def)
  define k where "k = bitlen n"
  have b: "2 ^ nat (k - 1) \<le> n" "n < 2 ^ nat k"
    using bitlen_bounds[OF less_le_trans[OF zero_less_one n1]] by (simp_all add: k_def)
  have k1: "1 \<le> k" using n1 by (simp add: k_def bitlen_alt_def)
  have e: "expo a = - k" using False by (simp add: expo_def k_def n_def yy_def)
  have p1: "(2::real) powi (- k) = 1 / 2 ^ nat k" using k1 by (simp add: power_int_def field_simps)
  have p2: "(2::real) powi (- k + 1) = 1 / 2 ^ nat (k - 1)"
    using k1 by (simp add: power_int_def field_simps nat_diff_distrib)
  note r = int_bounds_real[OF b]
  have "yy \<le> 2 ^ nat k" using n3 r(2) by linarith
  then have lo: "1 / 2 ^ nat k \<le> a"
    using assms by (simp add: yy_def field_simps)
  have "2 ^ nat (k - 1) < yy" using n2 r(1) by linarith
  then have hi: "a < 1 / 2 ^ nat (k - 1)"
    using assms by (simp add: yy_def field_simps)
  show ?thesis unfolding e p1 p2 using lo hi by simp
qed

lemma powi_binade_unique:
  assumes "(2::real) powi j \<le> a" "a < 2 powi (k + 1)"
  shows "j \<le> k"
proof (rule ccontr)
  assume "\<not> j \<le> k"
  then have "k + 1 \<le> j" by simp
  then have "(2::real) powi (k + 1) \<le> 2 powi j"
    by (intro power_int_increasing) auto
  with assms show False by linarith
qed

lemma expo_eqI:
  assumes "2 powi k \<le> a" "a < 2 powi (k + 1)"
  shows "expo a = k"
proof -
  have "(0::real) < 2 powi k" by simp
  then have "0 < a" using assms(1) by linarith
  from expo_bounds[OF this] have b: "2 powi (expo a) \<le> a" "a < 2 powi (expo a + 1)" by auto
  have "k \<le> expo a" using powi_binade_unique[OF assms(1) b(2)] .
  moreover have "expo a \<le> k" using powi_binade_unique[OF b(1) assms(2)] .
  ultimately show ?thesis by simp
qed

lemma double_pos_eq:
  assumes "0 < a"
  shows "double a = of_int (round_even (a / 2 powi (expo a - 52))) * 2 powi (expo a - 52)"
  using assms by (simp add: double_def Let_def)

lemma double_eval:
  assumes "2 powi k \<le> a" "a < 2 powi (k + 1)"
  shows "double a = of_int (round_even (a / 2 powi (k - 52))) * 2 powi (k - 52)"
proof -
  have "(0::real) < 2 powi k" by simp
  then have "0 < a" using assms(1) by linarith
  then show ?thesis using expo_eqI[OF assms] by (simp add: double_pos_eq)
qed

lemma double_minus: "double (- r) = - double r"
  by (simp add: double_def Let_def sgn_minus)

lemma double_error_pos:
  assumes "0 < a"
  shows "\<bar>double a - a\<bar> \<le> a / 2 ^ 53"
proof -
  define u :: real where "u = 2 powi (expo a - 52)"
  define m :: real where "m = of_int (round_even (a / u))"
  have u: "0 < u" by (simp add: u_def)
  have d: "double a = m * u"
    using assms by (simp add: double_pos_eq u_def m_def)
  have "\<bar>m - a / u\<bar> \<le> 1 / 2" unfolding m_def by (rule round_even_error)
  then have "\<bar>m - a / u\<bar> * u \<le> 1 / 2 * u"
    using u by (intro mult_right_mono) auto
  moreover have "\<bar>m - a / u\<bar> * u = \<bar>(m - a / u) * u\<bar>"
    using u by (simp add: abs_mult)
  moreover have "(m - a / u) * u = m * u - a"
    using u by (simp add: left_diff_distrib)
  ultimately have 1: "\<bar>double a - a\<bar> \<le> u / 2"
    unfolding d by simp
  have "u = 2 powi (expo a) / 2 ^ 52"
    by (simp add: u_def power_int_diff)
  moreover have "2 powi (expo a) \<le> a" using expo_bounds[OF assms] by simp
  ultimately have "u / 2 \<le> a / 2 ^ 53" by (simp add: field_simps)
  with 1 show ?thesis by linarith
qed

lemma double_error: "\<bar>double r - r\<bar> \<le> \<bar>r\<bar> / 2 ^ 53"
proof -
  consider "r = 0" | "0 < r" | "r < 0" by linarith
  then show ?thesis
  proof cases
    case 1 then show ?thesis by (simp add: double_def)
  next
    case 2 then show ?thesis using double_error_pos[of r] by simp
  next
    case 3
    then have "\<bar>double (- r) - (- r)\<bar> \<le> (- r) / 2 ^ 53" using double_error_pos[of "- r"] by simp
    then show ?thesis using 3 by (simp add: double_minus abs_if split: if_splits)
  qed
qed

lemma expo_half: "0 < a \<Longrightarrow> expo (a / 2) = expo a - 1"
proof -
  assume a: "0 < a"
  from expo_bounds[OF a] have b: "2 powi (expo a) \<le> a" "a < 2 powi (expo a + 1)" by auto
  have "(2::real) powi (expo a - 1) = 2 powi (expo a) / 2" by (simp add: power_int_diff)
  moreover have "(2::real) powi (expo a - 1 + 1) = 2 powi (expo a + 1) / 2" by (simp add: power_int_add)
  ultimately show ?thesis using b by (intro expo_eqI) auto
qed

lemma double_half: "double (r / 2) = double r / 2"
proof -
  have pos: "double (a / 2) = double a / 2" if "0 < a" for a
  proof -
    define u :: real where "u = 2 powi (expo a - 52)"
    have u: "(2::real) powi (expo a - 53) = u / 2"
      by (simp add: u_def power_int_diff)
    have "double (a / 2) = of_int (round_even (a / 2 / (u / 2))) * (u / 2)"
      using that by (simp add: double_pos_eq expo_half u)
    moreover have "a / 2 / (u / 2) = a / u" by simp
    moreover have "double a = of_int (round_even (a / u)) * u"
      using that by (simp add: double_pos_eq u_def)
    ultimately show ?thesis by simp
  qed
  consider "r = 0" | "0 < r" | "r < 0" by linarith
  then show ?thesis
  proof cases
    case 1 then show ?thesis by (simp add: double_def)
  next
    case 2 then show ?thesis by (rule pos)
  next
    case 3
    then have "double (- r / 2) = double (- r) / 2" using pos[of "- r"] by simp
    then show ?thesis using double_minus[of "r / 2"] double_minus[of r] by simp
  qed
qed


lemma round_even_ge: "of_int z \<le> r \<Longrightarrow> z \<le> round_even r"
proof -
  assume "of_int z \<le> r"
  then have "z \<le> \<lfloor>r\<rfloor>" by (simp add: le_floor_iff)
  then show ?thesis by (simp add: round_even_def Let_def)
qed

lemma round_even_le: "r \<le> of_int z \<Longrightarrow> round_even r \<le> z"
proof (cases "r = of_int z")
  case True
  then show ?thesis by (simp add: round_even_of_int)
next
  case False
  assume "r \<le> of_int z"
  with False have "r < of_int z" by simp
  then have "\<lfloor>r\<rfloor> < z" by (simp add: floor_less_iff)
  then show ?thesis by (simp add: round_even_def Let_def)
qed

lemma round_even_binade:
  assumes "0 < a"
  shows "2 ^ 52 \<le> round_even (a / 2 powi (expo a - 52))"
    and "round_even (a / 2 powi (expo a - 52)) \<le> 2 ^ 53"
proof -
  define u :: real where "u = 2 powi (expo a - 52)"
  have u: "0 < u" by (simp add: u_def)
  have u1: "2 powi (expo a) = 2 ^ 52 * u" by (simp add: u_def power_int_diff)
  have u2: "2 powi (expo a + 1) = 2 ^ 53 * u" by (simp add: u_def power_int_diff power_int_add)
  from expo_bounds[OF assms] have "2 ^ 52 * u \<le> a" "a < 2 ^ 53 * u"
    unfolding u1 u2 by auto
  then have "2 ^ 52 \<le> a / u" "a / u \<le> 2 ^ 53"
    using u by (simp_all add: field_simps)
  then have r: "of_int (2 ^ 52) \<le> a / u" "a / u \<le> of_int (2 ^ 53)" by simp_all
  show "2 ^ 52 \<le> round_even (a / 2 powi (expo a - 52))"
    unfolding u_def[symmetric] using r(1) by (rule round_even_ge)
  show "round_even (a / 2 powi (expo a - 52)) \<le> 2 ^ 53"
    unfolding u_def[symmetric] using r(2) by (rule round_even_le)
qed

lemma double_pos: "0 < a \<Longrightarrow> 0 < double a"
proof -
  assume a: "0 < a"
  have "(0::int) < 2 ^ 52" by simp
  with round_even_binade(1)[OF a] have "0 < round_even (a / 2 powi (expo a - 52))" by linarith
  then show ?thesis using a by (simp add: double_pos_eq)
qed

lemma double_idem_pos:
  assumes "0 < a"
  shows "double (double a) = double a"
proof -
  define u :: real where "u = 2 powi (expo a - 52)"
  define m where "m = round_even (a / u)"
  have u: "0 < u" by (simp add: u_def)
  have d: "double a = of_int m * u" using assms by (simp add: double_pos_eq u_def m_def)
  have m: "2 ^ 52 \<le> m" "m \<le> 2 ^ 53"
    using round_even_binade[OF assms] by (simp_all add: m_def u_def)
  have u1: "2 powi (expo a) = 2 ^ 52 * u" by (simp add: u_def power_int_diff)
  have u2: "2 powi (expo a + 1) = 2 ^ 53 * u" by (simp add: u_def power_int_diff power_int_add)
  have u3: "2 powi (expo a + 1 + 1) = 2 ^ 54 * u"
    by (simp add: u_def power_int_diff power_int_add)
  have u4: "2 powi (expo a + 1 - 52) = 2 * u" by (simp add: u_def power_int_diff power_int_add)
  show ?thesis
  proof (cases "m = 2 ^ 53")
    case True
    have dd: "double a = 2 ^ 53 * u" unfolding d True by simp
    have "2 powi (expo a + 1) \<le> double a" "double a < 2 powi (expo a + 1 + 1)"
      unfolding dd u2 u3 using u by simp_all
    from double_eval[OF this] have "double (double a) =
        of_int (round_even (2 ^ 53 * u / (2 * u))) * (2 * u)" unfolding u4 dd .
    moreover have "2 ^ 53 * u / (2 * u) = of_int (2 ^ 52)" using u by simp
    ultimately have "double (double a) = of_int (2 ^ 52) * (2 * u)"
      by (simp only: round_even_of_int)
    then show ?thesis unfolding dd by simp
  next
    case False
    with m have m': "m < 2 ^ 53" by simp
    have "(of_int (2 ^ 52) :: real) \<le> of_int m" "(of_int m :: real) < of_int (2 ^ 53)"
      using m(1) m' by (simp_all only: of_int_le_iff of_int_less_iff)
    then have "2 ^ 52 * u \<le> of_int m * u" "of_int m * u < 2 ^ 53 * u"
      using u by simp_all
    then have "2 powi (expo a) \<le> double a" "double a < 2 powi (expo a + 1)"
      unfolding d u1 u2 by simp_all
    from double_eval[OF this] have "double (double a) =
        of_int (round_even (of_int m * u / u)) * u" unfolding u_def[symmetric] d .
    moreover have "of_int m * u / u = of_int m" using u by simp
    ultimately show ?thesis unfolding d by (simp only: round_even_of_int)
  qed
qed

lemma double_idem: "double (double r) = double r"
proof -
  consider "r = 0" | "0 < r" | "r < 0" by linarith
  then show ?thesis
  proof cases
    case 1 then show ?thesis by (simp add: double_def)
  next
    case 2 then show ?thesis by (rule double_idem_pos)
  next
    case 3
    then have "double (double (- r)) = double (- r)" by (intro double_idem_pos) simp
    then show ?thesis by (simp add: double_minus)
  qed
qed

lemma double_of_int_pos:
  assumes "0 < n" "n < 2 ^ 53"
  shows "double (of_int n) = of_int n"
proof -
  define a :: real where "a = of_int n"
  have a: "0 < a" "1 \<le> a" "a < 2 ^ 53"
    using assms by (simp_all add: a_def)
  from expo_bounds[OF a(1)] have b: "2 powi (expo a) \<le> a" "a < 2 powi (expo a + 1)" by auto
  have "(2::real) powi 0 \<le> a" using a(2) by simp
  from powi_binade_unique[OF this b(2)] have e0: "0 \<le> expo a" .
  have "a < 2 powi (52 + 1)" using a(3) by simp
  from powi_binade_unique[OF b(1) this] have e52: "expo a \<le> 52" .
  define j where "j = nat (52 - expo a)"
  have u: "(2::real) powi (expo a - 52) = 1 / 2 ^ j"
    using e52 by (simp add: j_def power_int_def field_simps)
  have "a / (1 / 2 ^ j) = of_int (n * 2 ^ j)" by (simp add: a_def)
  then have "round_even (a / (1 / 2 ^ j)) = n * 2 ^ j" by (simp only: round_even_of_int)
  then have "double a = of_int (n * 2 ^ j) * (1 / 2 ^ j)"
    using a(1) by (simp only: double_pos_eq u)
  then show ?thesis unfolding a_def by simp
qed

lemma double_zero: "double 0 = 0"
  by (simp add: double_def)

lemma double_numeral: "numeral k < (2::int) ^ 53 \<Longrightarrow> double (numeral k) = numeral k"
  using double_of_int_pos[of "numeral k"] by simp

lemma t_val: "double (460 / 620) = 6682760737388478 / 2 ^ 53"
proof -
  have "2 powi (- 1) \<le> (460 / 620 :: real)" "(460 / 620 :: real) < 2 powi (- 1 + 1)" by simp_all
  from double_eval[OF this] show ?thesis
    by (simp add: round_even_def Let_def power_int_minus)
qed

lemma double_evalI:
  assumes "2 powi k \<le> a" "a < 2 powi (k + 1)" "round_even (a / 2 powi (k - 52)) = m"
  shows "double a = of_int m * 2 powi (k - 52)"
  using double_eval[OF assms(1,2)] assms(3) by simp

lemma double_lower: "0 \<le> r \<Longrightarrow> r - r / 2 ^ 53 \<le> double r"
  using double_error[of r] by (simp add: abs_if split: if_splits)

lemma double_upper: "0 \<le> r \<Longrightarrow> double r \<le> r + r / 2 ^ 53"
  using double_error[of r] by (simp add: abs_if split: if_splits)

lemma abs_boundI:
  fixes z c b :: real
  shows "c - b \<le> z \<Longrightarrow> z \<le> c + b \<Longrightarrow> \<bar>z - c\<bar> \<le> b"
  by (simp add: abs_le_iff)

lemma ratio_bound_tall:
  fixes q dq ww :: real
  assumes "q - q / 2 ^ 53 \<le> dq" "dq \<le> q + q / 2 ^ 53" "0 < q" "0 < dq"
    "ww = q * (6682760737388478 / 2 ^ 53)"
  shows "\<bar>ww / dq - 460 / 620\<bar> \<le> 460 / 620 / 2 ^ 51"
proof (rule abs_boundI)
  show "460 / 620 - 460 / 620 / 2 ^ 51 \<le> ww / dq"
    using assms by (simp add: field_simps)
  show "ww / dq \<le> 460 / 620 + 460 / 620 / 2 ^ 51"
    using assms by (simp add: field_simps)
qed

lemma ratio_bound_wide:
  fixes p dp hh :: real
  assumes "p - p / 2 ^ 53 \<le> dp" "dp \<le> p + p / 2 ^ 53" "0 < hh"
    "p = hh * (6682760737388478 / 2 ^ 53)"
  shows "\<bar>dp / hh - 460 / 620\<bar> \<le> 460 / 620 / 2 ^ 51"
proof (rule abs_boundI)
  show "460 / 620 - 460 / 620 / 2 ^ 51 \<le> dp / hh"
    using assms by (simp add: field_simps)
  show "dp / hh \<le> 460 / 620 + 460 / 620 / 2 ^ 51"
    using assms by (simp add: field_simps)
qed


lemma center_bound:
  fixes dd d s :: real
  assumes "\<bar>dd - d\<bar> \<le> \<bar>d\<bar> / 2 ^ 53"
  shows "\<bar>dd / 2 + s / 2 - (d + s) / 2\<bar> \<le> \<bar>d\<bar> / 2 ^ 54"
proof -
  have e: "dd / 2 + s / 2 - (d + s) / 2 = (dd - d) / 2" by (simp add: field_simps)
  have "\<bar>(dd - d) / 2\<bar> = \<bar>dd - d\<bar> / 2" by simp
  moreover have "\<bar>dd - d\<bar> / 2 \<le> \<bar>d\<bar> / 2 ^ 53 / 2" using assms by simp
  moreover have "\<bar>d\<bar> / 2 ^ 53 / 2 = \<bar>d\<bar> / 2 ^ 54" by simp
  ultimately show ?thesis unfolding e by linarith
qed

lemma above_target:
  fixes r dr :: real
  assumes "(23 * 2 ^ 32 + 1) / (31 * 2 ^ 32) < r" "r - r / 2 ^ 53 \<le> dr"
  shows "6682760737388478 / 2 ^ 53 < dr"
  using assms by (simp add: field_simps)

lemma below_target:
  fixes r dr :: real
  assumes "r < (23 * 2 ^ 32 - 1) / (31 * 2 ^ 32)" "dr \<le> r + r / 2 ^ 53"
  shows "dr < 6682760737388478 / 2 ^ 53"
  using assms by (simp add: field_simps)

lemma nat_ratio_gap:
  fixes a b :: nat
  assumes "23 * real b < 31 * real a" "real b < 2 ^ 32"
  shows "real b * (23 * 2 ^ 32 + 1) < real a * (31 * 2 ^ 32)"
proof -
  have "23 * b < 31 * a" using assms(1) by (metis of_nat_less_iff of_nat_mult of_nat_numeral)
  then have "23 * b + 1 \<le> 31 * a" by simp
  then have "real (23 * b + 1) \<le> real (31 * a)" by (simp only: of_nat_le_iff)
  then have "23 * real b + 1 \<le> 31 * real a" by simp
  then show ?thesis using assms(2) by simp
qed

lemma nat_ratio_gap':
  fixes a b :: nat
  assumes "31 * real a < 23 * real b" "real b < 2 ^ 32"
  shows "real a * (31 * 2 ^ 32) < real b * (23 * 2 ^ 32 - 1)"
proof -
  have "31 * a < 23 * b" using assms(1) by (metis of_nat_less_iff of_nat_mult of_nat_numeral)
  then have "31 * a + 1 \<le> 23 * b" by simp
  then have "real (31 * a + 1) \<le> real (23 * b)" by (simp only: of_nat_le_iff)
  then have "31 * real a + 1 \<le> 23 * real b" by simp
  then show ?thesis using assms(2) by simp
qed

lemma videoRatio_exact:
  fixes w h :: nat
  assumes "0 < h" "h < 2 ^ 32"
  shows "(double (460 / 620) < double (real w / real h)) = (460 / 620 < real w / real h)"
proof -
  define r where "r = real w / real h"
  have r0: "0 \<le> r" by (simp add: r_def)
  have h: "0 < real h" "real h < 2 ^ 32" using assms by simp_all
  show ?thesis
  proof (cases "460 / 620 < real w / real h")
    case True
    then have "23 * real h < 31 * real w" using h(1) by (simp add: field_simps)
    from nat_ratio_gap[OF this h(2)] have "(23 * 2 ^ 32 + 1) / (31 * 2 ^ 32) < r"
      using h(1) by (simp add: r_def field_simps)
    from above_target[OF this double_lower[OF r0]]
    have "double (460 / 620) < double (real w / real h)" unfolding t_val r_def .
    then show ?thesis using True by simp
  next
    case False
    show ?thesis
    proof (cases "real w / real h = 460 / 620")
      case True
      have "\<not> double (460 / 620) < double (real w / real h)" unfolding True by simp
      moreover have "\<not> 460 / 620 < real w / real h" unfolding True by simp
      ultimately show ?thesis by blast
    next
      case ne: False
      with False have "real w / real h < 460 / 620" by simp
      then have "31 * real w < 23 * real h" using h(1) by (simp add: field_simps)
      from nat_ratio_gap'[OF this h(2)] have "r < (23 * 2 ^ 32 - 1) / (31 * 2 ^ 32)"
        using h(1) by (simp add: r_def field_simps)
      from below_target[OF this double_upper[OF r0]]
      have "double (real w / real h) < double (460 / 620)" unfolding t_val r_def .
      then have "\<not> double (460 / 620) < double (real w / real h)" by simp
      then show ?thesis using False by blast
    qed
  qed
qed

lemma double_center:
  "\<bar>double (double d / 2) + s / 2 - (d + s) / 2\<bar> \<le> \<bar>d\<bar> / 2 ^ 54"
proof -
  have e: "double (double d / 2) = double d / 2" by (simp only: double_half double_idem)
  show ?thesis unfolding e using double_error[of d] by (rule center_bound)
qed

lemma ratio_wide:
  fixes hh :: real
  assumes "0 < hh"
  shows "\<bar>double (hh * (6682760737388478 / 2 ^ 53)) / hh - 460 / 620\<bar> \<le> 460 / 620 / 2 ^ 51"
proof -
  have p: "0 \<le> hh * (6682760737388478 / 2 ^ 53)" using assms by simp
  show ?thesis
    by (rule ratio_bound_wide[OF double_lower[OF p] double_upper[OF p] assms refl])
qed

lemma ratio_tall:
  fixes ww :: real
  assumes "0 < ww"
  shows "0 < double (ww / (6682760737388478 / 2 ^ 53))"
    and "\<bar>ww / double (ww / (6682760737388478 / 2 ^ 53)) - 460 / 620\<bar> \<le> 460 / 620 / 2 ^ 51"
proof -
  have q: "0 < ww / (6682760737388478 / 2 ^ 53)" using assms by simp
  then have q0: "0 \<le> ww / (6682760737388478 / 2 ^ 53)" by simp
  show pos: "0 < double (ww / (6682760737388478 / 2 ^ 53))" using q by (rule double_pos)
  have w: "ww = ww / (6682760737388478 / 2 ^ 53) * (6682760737388478 / 2 ^ 53)" by simp
  show "\<bar>ww / double (ww / (6682760737388478 / 2 ^ 53)) - 460 / 620\<bar> \<le> 460 / 620 / 2 ^ 51"
    by (rule ratio_bound_tall[OF double_lower[OF q0] double_upper[OF q0] q pos w])
qed

lemma double_le_int:
  assumes "0 < a" "a \<le> of_int n" "n < 2 ^ 53"
  shows "double a \<le> of_int n"
proof -
  define u :: real where "u = 2 powi (expo a - 52)"
  define m where "m = round_even (a / u)"
  have u: "0 < u" by (simp add: u_def)
  have d: "double a = of_int m * u" using assms(1) by (simp add: double_pos_eq u_def m_def)
  from expo_bounds[OF assms(1)] have b: "2 powi (expo a) \<le> a" "a < 2 powi (expo a + 1)" by auto
  have u2: "2 powi (expo a + 1) = 2 ^ 53 * u" by (simp add: u_def power_int_diff power_int_add)
  show ?thesis
  proof (cases "(2::real) powi (expo a + 1) \<le> of_int n")
    case True
    have "m \<le> 2 ^ 53" using round_even_binade(2)[OF assms(1)] by (simp add: m_def u_def)
    then have "(of_int m :: real) \<le> of_int (2 ^ 53)" by (simp only: of_int_le_iff)
    then have "of_int m * u \<le> 2 ^ 53 * u" using u by simp
    then show ?thesis using True unfolding d u2 by linarith
  next
    case False
    then have hi: "of_int n < (2::real) powi (expo a + 1)" by simp
    have lo: "(2::real) powi (expo a) \<le> of_int n" using b(1) assms(2) by linarith
    have "0 < (of_int n :: real)" using assms(1,2) by linarith
    then have "1 \<le> n" by simp
    then have "(2::real) powi 0 \<le> of_int n" by simp
    from powi_binade_unique[OF this hi] have e0: "0 \<le> expo a" .
    have "(of_int n :: real) < of_int (2 ^ 53)" using assms(3) by (simp only: of_int_less_iff)
    then have "(of_int n :: real) < 2 powi (52 + 1)" by simp
    from powi_binade_unique[OF lo this] have e52: "expo a \<le> 52" .
    define j where "j = nat (52 - expo a)"
    have uj: "u = 1 / 2 ^ j" using e52 by (simp add: u_def j_def power_int_def field_simps)
    have "a / u \<le> of_int n / u" using assms(2) u by (simp add: divide_right_mono)
    moreover have "of_int n / u = of_int (n * 2 ^ j)" by (simp add: uj)
    ultimately have "a / u \<le> of_int (n * 2 ^ j)" by simp
    then have "m \<le> n * 2 ^ j" unfolding m_def by (rule round_even_le)
    then have "(of_int m :: real) \<le> of_int (n * 2 ^ j)" by (simp only: of_int_le_iff)
    then have "of_int m * u \<le> of_int (n * 2 ^ j) * u"
      using u by (intro mult_right_mono) simp_all
    moreover have "of_int (n * 2 ^ j) * u = of_int n" by (simp add: uj)
    ultimately show ?thesis unfolding d by (simp only:)
  qed
qed

lemma double_nonneg: "0 \<le> r \<Longrightarrow> 0 \<le> double r"
  using double_pos[of r] by (cases "r = 0") (simp_all add: less_imp_le double_zero)

lemma double_abs_le_int:
  assumes "\<bar>r\<bar> \<le> of_int n" "n < 2 ^ 53"
  shows "\<bar>double r\<bar> \<le> of_int n"
proof -
  consider "r = 0" | "0 < r" | "r < 0" by linarith
  then show ?thesis
  proof cases
    case 1
    then show ?thesis using assms(1) by (simp add: double_zero)
  next
    case 2
    then have "double r \<le> of_int n" using assms by (intro double_le_int) simp_all
    moreover have "0 < double r" using 2 by (rule double_pos)
    ultimately show ?thesis by simp
  next
    case 3
    then have "double (- r) \<le> of_int n" using assms by (intro double_le_int) simp_all
    moreover have "0 < double (- r)" using 3 by (intro double_pos) simp
    ultimately show ?thesis by (simp add: double_minus)
  qed
qed

lemma rotation_range:
  assumes "0 \<le> r" "r < 1"
  shows "- 3 \<le> double (double (r * 6) - 3)" "double (double (r * 6) - 3) \<le> 3"
proof -
  have "\<bar>r * 6 - 3\<bar> \<le> 3" using assms by (simp add: abs_le_iff)
  have a0: "0 \<le> double (r * 6)" using assms(1) by (intro double_nonneg) simp
  have "\<bar>r * 6\<bar> \<le> of_int 6" using assms by (simp add: abs_le_iff)
  then have "\<bar>double (r * 6)\<bar> \<le> of_int 6" by (rule double_abs_le_int) simp
  then have "\<bar>double (r * 6) - 3\<bar> \<le> of_int 3" using a0 by (simp add: abs_le_iff)
  then have "\<bar>double (double (r * 6) - 3)\<bar> \<le> of_int 3" by (rule double_abs_le_int) simp
  then show "- 3 \<le> double (double (r * 6) - 3)" "double (double (r * 6) - 3) \<le> 3"
    by (simp_all add: abs_le_iff)
qed

section \<open>The wall controller: proofs\<close>

subsection \<open>The stacking counter\<close>

lemma counters_eq: "counters is s = map (\<lambda>k. topZIndex s + 1 + int k) [0..<length is]"
proof (induction "is" arbitrary: s)
  case Nil
  then show ?case by simp
next
  case (Cons i "is")
  have "[0..<length (i # is)] = 0 # map Suc [0..<length is]"
    by (simp add: upt_conv_Cons map_Suc_upt del: upt_Suc)
  then show ?case
    using Cons[of "handleBringToFront i s"]
    by (simp add: handleBringToFront_def comp_def del: upt_Suc)
qed

lemma counters_sorted: "sorted_wrt (<) (counters is s)"
  by (simp add: counters_eq sorted_wrt_map del: upt_Suc)

lemma counters_distinct: "distinct (counters is s)"
  by (simp add: counters_eq distinct_map inj_on_def del: upt_Suc)

lemma step_topZIndex: "topZIndex (fst sd) \<le> topZIndex (fst (step a sd))"
  by (cases a)
    (simp_all add: handleTakePhoto_def handleDelete_def handleDownload_def
      handleBringToFront_def Let_def)

lemma run_topZIndex: "topZIndex (fst sd) \<le> topZIndex (fst (run as sd))"
proof (induction as arbitrary: sd)
  case Nil
  show ?case by simp
next
  case (Cons a as)
  show ?case
    using step_topZIndex[of sd a] Cons[of "step a sd"] by simp
qed

lemma render_handleBringToFront: "render (handleBringToFront i s) = render s"
  by (simp add: render_def handleBringToFront_def)

text \<open>
  C1. The claim: after \<open>onBringToFront\<close> of a card the new value of the counter is that
  card's stacking layer, the maximum over all cards. The code increments the counter and
  renders every card at \<open>index + 10\<close> as before. On a wall of the two cards \<open>a\<close> and \<open>b\<close>,
  after \<open>handleBringToFront\<close> of \<open>a\<close> the counter is 11, the card \<open>a\<close> is still at layer 10
  and the card \<open>b\<close> at layer 11 is above it.
\<close>

theorem handleBringToFront_layer_unchanged:
  "topZIndex (handleBringToFront ''a''
      \<lparr>photos = [\<lparr>id_photo = ''a'', url = ''u'', timestamp = 0, x = 0, y = 0, rotation = 0, isDeveloping = True\<rparr>,
        \<lparr>id_photo = ''b'', url = ''v'', timestamp = 1, x = 0, y = 0, rotation = 0, isDeveloping = False\<rparr>], topZIndex = 10\<rparr>) = 11 \<and>
   zIndex_of ''a'' (handleBringToFront ''a''
      \<lparr>photos = [\<lparr>id_photo = ''a'', url = ''u'', timestamp = 0, x = 0, y = 0, rotation = 0, isDeveloping = True\<rparr>,
        \<lparr>id_photo = ''b'', url = ''v'', timestamp = 1, x = 0, y = 0, rotation = 0, isDeveloping = False\<rparr>], topZIndex = 10\<rparr>) = Some 10 \<and>
   zIndex_of ''b'' (handleBringToFront ''a''
      \<lparr>photos = [\<lparr>id_photo = ''a'', url = ''u'', timestamp = 0, x = 0, y = 0, rotation = 0, isDeveloping = True\<rparr>,
        \<lparr>id_photo = ''b'', url = ''v'', timestamp = 1, x = 0, y = 0, rotation = 0, isDeveloping = False\<rparr>], topZIndex = 10\<rparr>) = Some 11"
  by (simp add: zIndex_of_def render_def handleBringToFront_def enumerate_eq_zip upt_rec)

text \<open>
  C8. Every call of \<open>handleBringToFront\<close> adds exactly one to the counter, no run of
  operations of the wall makes it smaller, and the values that \<open>N\<close> successive calls
  produce are the \<open>N\<close> values from \<open>topZIndex + 1\<close> upwards: strictly increasing and
  pairwise distinct, whatever the identifiers are.
\<close>

theorem topZIndex_monotone:
  "topZIndex (handleBringToFront i s) = topZIndex s + 1 \<and>
   topZIndex (fst sd) \<le> topZIndex (fst (run as sd)) \<and>
   counters is s = map (\<lambda>k. topZIndex s + 1 + int k) [0..<length is] \<and>
   sorted_wrt (<) (counters is s) \<and>
   distinct (counters is s)"
  using run_topZIndex[of sd as] counters_eq[of "is" s] counters_sorted[of "is" s]
    counters_distinct[of "is" s]
  by (simp add: handleBringToFront_def)

text \<open>
  C10. \<open>handleBringToFront\<close> does not depend on its argument: from the same wall, any two
  identifiers give the same wall, whose counter is one more and whose photos are the same.
\<close>

theorem handleBringToFront_independent:
  "handleBringToFront i s = handleBringToFront j s \<and>
   topZIndex (handleBringToFront i s) = topZIndex s + 1 \<and>
   photos (handleBringToFront i s) = photos s"
  by (simp add: handleBringToFront_def)

subsection \<open>Deleting a card\<close>

lemma count_list_filter_photos:
  "count_list (filter P ps) p = (if P p then count_list ps p else 0)"
  by (induction ps) auto

text \<open>
  C4. \<open>handleDelete\<close> of an identifier that no card has returns the wall as it was. In
  every case the remaining photos are a subsequence of the old ones (the order is kept),
  none of them has the identifier, every card with another identifier occurs as often as
  before, and the counter is the same. The function is total: there is no error.
\<close>

theorem handleDelete_spec:
  "(i \<notin> id_photo ` set (photos s) \<longrightarrow> handleDelete i s = s) \<and>
   subseq (photos (handleDelete i s)) (photos s) \<and>
   i \<notin> id_photo ` set (photos (handleDelete i s)) \<and>
   (\<forall>p. id_photo p \<noteq> i \<longrightarrow>
      count_list (photos (handleDelete i s)) p = count_list (photos s) p) \<and>
   topZIndex (handleDelete i s) = topZIndex s"
proof -
  have "i \<notin> id_photo ` set (photos s) \<Longrightarrow>
      filter (\<lambda>p. id_photo p \<noteq> i) (photos s) = photos s"
    by (rule filter_True) auto
  then have "i \<notin> id_photo ` set (photos s) \<longrightarrow> handleDelete i s = s"
    by (simp add: handleDelete_def)
  moreover have "subseq (photos (handleDelete i s)) (photos s)"
    by (simp add: handleDelete_def)
  moreover have "i \<notin> id_photo ` set (photos (handleDelete i s))"
    by (auto simp: handleDelete_def)
  moreover have "\<forall>p. id_photo p \<noteq> i \<longrightarrow>
      count_list (photos (handleDelete i s)) p = count_list (photos s) p"
    by (simp add: handleDelete_def count_list_filter_photos)
  moreover have "topZIndex (handleDelete i s) = topZIndex s"
    by (simp add: handleDelete_def)
  ultimately show ?thesis by blast
qed

theorem handleDelete_spec_witness:
  "''c'' \<notin> id_photo ` set (photos
      \<lparr>photos = [\<lparr>id_photo = ''a'', url = ''u'', timestamp = 0, x = 0, y = 0, rotation = 0, isDeveloping = True\<rparr>,
        \<lparr>id_photo = ''b'', url = ''v'', timestamp = 1, x = 0, y = 0, rotation = 0, isDeveloping = False\<rparr>], topZIndex = 10\<rparr>) \<and>
   handleDelete ''c''
      \<lparr>photos = [\<lparr>id_photo = ''a'', url = ''u'', timestamp = 0, x = 0, y = 0, rotation = 0, isDeveloping = True\<rparr>,
        \<lparr>id_photo = ''b'', url = ''v'', timestamp = 1, x = 0, y = 0, rotation = 0, isDeveloping = False\<rparr>], topZIndex = 10\<rparr> =
      \<lparr>photos = [\<lparr>id_photo = ''a'', url = ''u'', timestamp = 0, x = 0, y = 0, rotation = 0, isDeveloping = True\<rparr>,
        \<lparr>id_photo = ''b'', url = ''v'', timestamp = 1, x = 0, y = 0, rotation = 0, isDeveloping = False\<rparr>], topZIndex = 10\<rparr> \<and>
   ''a'' \<in> id_photo ` set (photos
      \<lparr>photos = [\<lparr>id_photo = ''a'', url = ''u'', timestamp = 0, x = 0, y = 0, rotation = 0, isDeveloping = True\<rparr>,
        \<lparr>id_photo = ''b'', url = ''v'', timestamp = 1, x = 0, y = 0, rotation = 0, isDeveloping = False\<rparr>], topZIndex = 10\<rparr>) \<and>
   photos (handleDelete ''a''
      \<lparr>photos = [\<lparr>id_photo = ''a'', url = ''u'', timestamp = 0, x = 0, y = 0, rotation = 0, isDeveloping = True\<rparr>,
        \<lparr>id_photo = ''b'', url = ''v'', timestamp = 1, x = 0, y = 0, rotation = 0, isDeveloping = False\<rparr>], topZIndex = 10\<rparr>) =
      [\<lparr>id_photo = ''b'', url = ''v'', timestamp = 1, x = 0, y = 0, rotation = 0, isDeveloping = False\<rparr>]"
  using handleDelete_spec [of "''c''"
      "\<lparr>photos = [\<lparr>id_photo = ''a'', url = ''u'', timestamp = 0, x = 0, y = 0, rotation = 0, isDeveloping = True\<rparr>,
        \<lparr>id_photo = ''b'', url = ''v'', timestamp = 1, x = 0, y = 0, rotation = 0, isDeveloping = False\<rparr>], topZIndex = 10\<rparr>"]
    handleDelete_spec [of "''a''"
      "\<lparr>photos = [\<lparr>id_photo = ''a'', url = ''u'', timestamp = 0, x = 0, y = 0, rotation = 0, isDeveloping = True\<rparr>,
        \<lparr>id_photo = ''b'', url = ''v'', timestamp = 1, x = 0, y = 0, rotation = 0, isDeveloping = False\<rparr>], topZIndex = 10\<rparr>"]
  by (simp add: handleDelete_def)

subsection \<open>Downloading a card\<close>

text \<open>
  C6. \<open>handleDownload\<close> clicks one anchor whose \<open>href\<close> is the given url, unchanged, and
  whose file name is \<open>instax-\<close>, then the first 8 characters of the identifier, then
  \<open>.jpg\<close>. The wall (photos and counter) is returned as it was, and the anchor is no longer
  under the body of the document.
\<close>

theorem handleDownload_spec:
  "fst (handleDownload i u (s, d)) = s \<and>
   clicked (snd (handleDownload i u (s, d))) =
     clicked d @ [\<lparr>href = u, download = ''instax-'' @ take 8 i @ ''.jpg''\<rparr>] \<and>
   body (snd (handleDownload i u (s, d))) = body d"
  by (simp add: handleDownload_def appendChild_def click_def removeChild_def slice_def Let_def)

subsection \<open>Taking a photo\<close>

text \<open>
  What \<open>handleTakePhoto\<close> does for a value of \<open>Math.random()\<close> in \<open>[0, 1)\<close>: it appends
  exactly one card and changes nothing else; the card is developing, carries the captured
  image, and its rotation, computed in binary64, lies between -3 and 3.
\<close>

lemma handleTakePhoto_appends:
  "0 \<le> r \<Longrightarrow> r < 1 \<Longrightarrow>
   (\<exists>p. photos (handleTakePhoto u n r d c s) = photos s @ [p] \<and>
     - 3 \<le> rotation p \<and> rotation p \<le> 3 \<and>
     isDeveloping p \<and> url p = d \<and> id_photo p = u \<and> timestamp p = n) \<and>
   topZIndex (handleTakePhoto u n r d c s) = topZIndex s"
  using rotation_range[of r] by (simp add: handleTakePhoto_def Let_def)

text \<open>
  C7. The claim: the new card is horizontally centred on the rectangle of the camera. The
  code subtracts 100 from the centre of the rectangle, half of a width of 200, and the card
  is 224 wide. For the rectangle of the camera body, 340 wide with its left edge at 40, the
  centre of the rectangle is at 210; the card gets \<open>x = 110\<close>, so its centre is at 222,
  which is 12 to the right.
\<close>

theorem handleTakePhoto_off_centre:
  "photos (handleTakePhoto ''id-1'' 1000 (1 / 2) ''data:image/jpeg''
      \<lparr>left_rect = 40, top_rect = 500, width_rect = 340, height_rect = 300\<rparr> App_init) =
     [\<lparr>id_photo = ''id-1'', url = ''data:image/jpeg'', timestamp = 1000, x = 110, y = 200,
       rotation = 0, isDeveloping = True\<rparr>] \<and>
   centerX_rect \<lparr>left_rect = 40, top_rect = 500, width_rect = 340, height_rect = 300\<rparr> = 210 \<and>
   map centerX_Polaroid (photos (handleTakePhoto ''id-1'' 1000 (1 / 2) ''data:image/jpeg''
      \<lparr>left_rect = 40, top_rect = 500, width_rect = 340, height_rect = 300\<rparr> App_init)) = [222]"
  by (simp add: handleTakePhoto_def App_init_def centerX_rect_def centerX_Polaroid_def
      width_Polaroid_def double_numeral double_zero)

section \<open>The card: proofs\<close>

lemma Polaroid_step_developed: "developed c \<Longrightarrow> developed (Polaroid_step e c)"
  by (cases e) (simp_all add: effect_def cleanup_def timeout_def setDeveloped_def)

lemma Polaroid_run_developed: "developed c \<Longrightarrow> developed (Polaroid_run es c)"
  by (induction es arbitrary: c) (simp_all add: Polaroid_step_developed)

lemma developed_trace_True:
  "developed c \<Longrightarrow> developed_trace es c = replicate (Suc (length es)) True"
  by (induction es arbitrary: c) (simp_all add: Polaroid_step_developed)

lemma developed_trace_shape:
  "\<exists>k m. developed_trace es c = replicate k False @ replicate m True"
proof (induction es arbitrary: c)
  case Nil
  show ?case
  proof (cases "developed c")
    case True
    then have "developed_trace [] c = replicate 0 False @ replicate 1 True" by simp
    then show ?thesis by blast
  next
    case False
    then have "developed_trace [] c = replicate 1 False @ replicate 0 True" by simp
    then show ?thesis by blast
  qed
next
  case (Cons e es)
  show ?case
  proof (cases "developed c")
    case True
    then have "developed_trace (e # es) c =
        replicate 0 False @ replicate (Suc (length (e # es))) True"
      using developed_trace_True[of c "e # es"] by simp
    then show ?thesis by blast
  next
    case False
    obtain k m where
      "developed_trace es (Polaroid_step e c) = replicate k False @ replicate m True"
      using Cons by blast
    with False have "developed_trace (e # es) c = replicate (Suc k) False @ replicate m True"
      by simp
    then show ?thesis by blast
  qed
qed

text \<open>
  C5. The claim says that a card with \<open>isDeveloping\<close> false starts in the developed state.
  In the code every card starts with \<open>useState(false)\<close>: at its first render such a card is
  not developed, and it becomes developed when the effect of its mount runs.
\<close>

theorem developed_false_at_first_render:
  "\<not> isDeveloping \<lparr>id_photo = ''b'', url = ''v'', timestamp = 1, x = 0, y = 0, rotation = 0, isDeveloping = False\<rparr> \<and>
   \<not> developed Polaroid_init \<and>
   developed_trace [Effect \<lparr>id_photo = ''b'', url = ''v'', timestamp = 1, x = 0, y = 0, rotation = 0, isDeveloping = False\<rparr>]
     Polaroid_init = [False, True]"
  by (simp add: Polaroid_init_def effect_def setDeveloped_def)

text \<open>
  C5, as the code has it. Every card is undeveloped at its first render. A card mounted
  with \<open>isDeveloping\<close> true is then still not developed and has its timer pending, and is
  developed once the timer has fired. A card mounted with \<open>isDeveloping\<close> false is
  developed by the effect of its mount, with no timer. From any state and under any
  sequence of effects, cleanups and timer events, a developed card stays developed, and the
  values of \<open>developed\<close> along the run are some \<open>False\<close> followed by some \<open>True\<close>: the
  change happens at most once and is never undone. The length of the delay is not part of
  the model.
\<close>

theorem developed_one_way:
  "\<not> developed Polaroid_init \<and>
   (isDeveloping ph \<longrightarrow>
      \<not> developed (mount ph) \<and> timer (mount ph) \<and> developed (timeout (mount ph))) \<and>
   (\<not> isDeveloping ph \<longrightarrow> developed (mount ph) \<and> \<not> timer (mount ph)) \<and>
   (developed c \<longrightarrow> developed (Polaroid_run es c)) \<and>
   (\<exists>k m. developed_trace es c = replicate k False @ replicate m True)"
  using Polaroid_run_developed[of c es] developed_trace_shape[of es c]
  by (simp add: mount_def effect_def timeout_def setDeveloped_def Polaroid_init_def)

theorem developed_one_way_witness:
  "isDeveloping \<lparr>id_photo = ''a'', url = ''u'', timestamp = 0, x = 0, y = 0, rotation = 0, isDeveloping = True\<rparr> \<and>
   \<not> developed (mount \<lparr>id_photo = ''a'', url = ''u'', timestamp = 0, x = 0, y = 0, rotation = 0, isDeveloping = True\<rparr>) \<and>
   developed (timeout (mount \<lparr>id_photo = ''a'', url = ''u'', timestamp = 0, x = 0, y = 0, rotation = 0, isDeveloping = True\<rparr>)) \<and>
   \<not> isDeveloping \<lparr>id_photo = ''b'', url = ''v'', timestamp = 1, x = 0, y = 0, rotation = 0, isDeveloping = False\<rparr> \<and>
   developed (mount \<lparr>id_photo = ''b'', url = ''v'', timestamp = 1, x = 0, y = 0, rotation = 0, isDeveloping = False\<rparr>) \<and>
   \<not> timer (mount \<lparr>id_photo = ''b'', url = ''v'', timestamp = 1, x = 0, y = 0, rotation = 0, isDeveloping = False\<rparr>) \<and>
   developed (Polaroid_run [Effect \<lparr>id_photo = ''a'', url = ''u'', timestamp = 0, x = 0, y = 0, rotation = 0, isDeveloping = True\<rparr>, Timeout, Cleanup \<lparr>id_photo = ''a'', url = ''u'', timestamp = 0, x = 0, y = 0, rotation = 0, isDeveloping = True\<rparr>]
      (mount \<lparr>id_photo = ''b'', url = ''v'', timestamp = 1, x = 0, y = 0, rotation = 0, isDeveloping = False\<rparr>)) \<and>
   developed_trace [Timeout, Cleanup \<lparr>id_photo = ''a'', url = ''u'', timestamp = 0, x = 0, y = 0, rotation = 0, isDeveloping = True\<rparr>, Effect \<lparr>id_photo = ''a'', url = ''u'', timestamp = 0, x = 0, y = 0, rotation = 0, isDeveloping = True\<rparr>]
      (mount \<lparr>id_photo = ''a'', url = ''u'', timestamp = 0, x = 0, y = 0, rotation = 0, isDeveloping = True\<rparr>) = [False, True, True, True]"
  using developed_one_way [of "\<lparr>id_photo = ''a'', url = ''u'', timestamp = 0, x = 0, y = 0, rotation = 0, isDeveloping = True\<rparr>"
      "mount \<lparr>id_photo = ''b'', url = ''v'', timestamp = 1, x = 0, y = 0, rotation = 0, isDeveloping = False\<rparr>"
      "[Effect \<lparr>id_photo = ''a'', url = ''u'', timestamp = 0, x = 0, y = 0, rotation = 0, isDeveloping = True\<rparr>, Timeout, Cleanup \<lparr>id_photo = ''a'', url = ''u'', timestamp = 0, x = 0, y = 0, rotation = 0, isDeveloping = True\<rparr>]"]
    developed_one_way [of "\<lparr>id_photo = ''b'', url = ''v'', timestamp = 1, x = 0, y = 0, rotation = 0, isDeveloping = False\<rparr>"
      "mount \<lparr>id_photo = ''a'', url = ''u'', timestamp = 0, x = 0, y = 0, rotation = 0, isDeveloping = True\<rparr>"
      "[Timeout, Cleanup \<lparr>id_photo = ''a'', url = ''u'', timestamp = 0, x = 0, y = 0, rotation = 0, isDeveloping = True\<rparr>, Effect \<lparr>id_photo = ''a'', url = ''u'', timestamp = 0, x = 0, y = 0, rotation = 0, isDeveloping = True\<rparr>]"]
  by (simp add: mount_def effect_def cleanup_def timeout_def setDeveloped_def Polaroid_init_def)

section \<open>The capture source: proofs\<close>

lemma handleCapture_keeps:
  "permissionError (fst (handleCapture t g c)) = permissionError c \<and>
   videoRef (fst (handleCapture t g c)) = videoRef c \<and>
   cameraBodyRef (fst (handleCapture t g c)) = cameraBodyRef c \<and>
   isStreaming (fst (handleCapture t g c)) = isStreaming c \<and>
   console (fst (handleCapture t g c)) = console c \<and>
   requests (fst (handleCapture t g c)) = requests c"
  by (simp add: handleCapture_def Let_def)

lemma Camera_step_keeps:
  "permissionError (Camera_step t g e c) = permissionError c \<and>
   videoRef (Camera_step t g e c) = videoRef c \<and>
   isStreaming (Camera_step t g e c) = isStreaming c \<and>
   console (Camera_step t g e c) = console c \<and>
   requests (Camera_step t g e c) = requests c"
  by (cases e) (simp_all add: handleCapture_keeps)

lemma Camera_run_keeps:
  "permissionError (Camera_run t g es c) = permissionError c \<and>
   videoRef (Camera_run t g es c) = videoRef c \<and>
   isStreaming (Camera_run t g es c) = isStreaming c \<and>
   console (Camera_run t g es c) = console c \<and>
   requests (Camera_run t g es c) = requests c"
  by (induction es arbitrary: c) (simp_all add: Camera_step_keeps)

text \<open>When \<open>getUserMedia\<close> resolves, the stream is attached and the component streams.\<close>

lemma setupCamera_success:
  "setupCamera (Inr stream) (Camera_init v cv r) =
     (Camera_init v cv r)\<lparr>requests := 1, videoRef := Some (v\<lparr>srcObject := Some stream\<rparr>),
       isStreaming := True\<rparr>"
  by (simp add: setupCamera_def Camera_init_def)

text \<open>The result of a capture when the three refs are set and the canvas gives a context.\<close>

lemma handleCapture_canvas:
  assumes "videoRef c = Some v" "canvasRef c = Some cv" "cameraBodyRef c = Some r"
  shows "handleCapture t True c =
    (c\<lparr>isFlashing := True,
       canvasRef := Some (cv\<lparr>width_canvas := 460, height_canvas := 620, transform := (- 1, 460),
          drawn := Some \<lparr>src = centerCrop v 460 620, dx = 0, dy = 0,
            dWidth = 460, dHeight = 620\<rparr>\<rparr>),
       ejectingPhoto := Some (t (cv\<lparr>width_canvas := 460, height_canvas := 620,
          transform := (- 1, 460),
          drawn := Some \<lparr>src = centerCrop v 460 620, dx = 0, dy = 0,
            dWidth = 460, dHeight = 620\<rparr>\<rparr>))\<rparr>,
     Some (t (cv\<lparr>width_canvas := 460, height_canvas := 620, transform := (- 1, 460),
          drawn := Some \<lparr>src = centerCrop v 460 620, dx = 0, dy = 0,
            dWidth = 460, dHeight = 620\<rparr>\<rparr>), r))"
  using assms
  by (simp add: handleCapture_def Let_def translate_def scale_def drawImage_def)

text \<open>
  C2. When the video, the canvas and the camera body are rendered and the canvas gives a
  context, a capture returns: the still that is handed over is the encoding of a canvas
  that is 460 wide and 620 high, on which the frame was drawn into the rectangle from
  \<open>(0, 0)\<close> of 460 by 620. This holds for every width and height of the video, so for
  every positive one.
\<close>

theorem capture_dimensions:
  assumes "videoRef c = Some v" "canvasRef c = Some cv" "cameraBodyRef c = Some r"
  shows "\<exists>cv' d. canvasRef (fst (handleCapture t True c)) = Some cv' \<and>
           snd (handleCapture t True c) = Some (t cv', r) \<and>
           ejectingPhoto (fst (handleCapture t True c)) = Some (t cv') \<and>
           width_canvas cv' = 460 \<and> height_canvas cv' = 620 \<and>
           drawn cv' = Some d \<and> dx d = 0 \<and> dy d = 0 \<and> dWidth d = 460 \<and> dHeight d = 620"
  by (simp add: handleCapture_canvas[OF assms])

theorem capture_dimensions_witness:
  "videoRef (Camera_init \<lparr>videoWidth = 1280, videoHeight = 720, srcObject = Some ''s''\<rparr>
       \<lparr>width_canvas = 300, height_canvas = 150, transform = (1, 0), drawn = None\<rparr>
       \<lparr>left_rect = 40, top_rect = 500, width_rect = 340, height_rect = 300\<rparr>) =
     Some \<lparr>videoWidth = 1280, videoHeight = 720, srcObject = Some ''s''\<rparr> \<and>
   map_option width_canvas (canvasRef (fst (handleCapture (\<lambda>cv. ''data:image/jpeg'') True
     (Camera_init \<lparr>videoWidth = 1280, videoHeight = 720, srcObject = Some ''s''\<rparr>
       \<lparr>width_canvas = 300, height_canvas = 150, transform = (1, 0), drawn = None\<rparr>
       \<lparr>left_rect = 40, top_rect = 500, width_rect = 340, height_rect = 300\<rparr>)))) = Some 460 \<and>
   map_option height_canvas (canvasRef (fst (handleCapture (\<lambda>cv. ''data:image/jpeg'') True
     (Camera_init \<lparr>videoWidth = 1280, videoHeight = 720, srcObject = Some ''s''\<rparr>
       \<lparr>width_canvas = 300, height_canvas = 150, transform = (1, 0), drawn = None\<rparr>
       \<lparr>left_rect = 40, top_rect = 500, width_rect = 340, height_rect = 300\<rparr>)))) = Some 620"
  using capture_dimensions [of
      "Camera_init \<lparr>videoWidth = 1280, videoHeight = 720, srcObject = Some ''s''\<rparr>
       \<lparr>width_canvas = 300, height_canvas = 150, transform = (1, 0), drawn = None\<rparr>
       \<lparr>left_rect = 40, top_rect = 500, width_rect = 340, height_rect = 300\<rparr>"
      "\<lparr>videoWidth = 1280, videoHeight = 720, srcObject = Some ''s''\<rparr>"
      "\<lparr>width_canvas = 300, height_canvas = 150, transform = (1, 0), drawn = None\<rparr>"
      "\<lparr>left_rect = 40, top_rect = 500, width_rect = 340, height_rect = 300\<rparr>"
      "(\<lambda>cv. ''data:image/jpeg'')"]
  by (auto simp: Camera_init_def)

subsection \<open>The crop\<close>

text \<open>
  For a height below \<open>2 ^ 32\<close> the rounded comparison of the program decides exactly
  whether the ratio of the video is greater than 460/620: two different ratios of such
  sizes are further apart than the rounding moves them.
\<close>

lemma videoRatio_gt_exact:
  assumes "0 < videoHeight v" "videoHeight v < 2 ^ 32"
  shows "videoRatio_gt v (double (460 / 620)) =
    (460 / 620 < real (videoWidth v) / real (videoHeight v))"
  using videoRatio_exact[OF assms, of "videoWidth v"] assms(1)
  by (simp add: videoRatio_gt_def)

lemma centerCrop_wide:
  assumes "0 < videoHeight v" "videoHeight v < 2 ^ 32"
    and "460 / 620 < real (videoWidth v) / real (videoHeight v)"
  shows "centerCrop v 460 620 =
    \<lparr>sourceX = double (double (real (videoWidth v)
         - double (real (videoHeight v) * (6682760737388478 / 2 ^ 53))) / 2),
     sourceY = 0,
     sourceWidth = double (real (videoHeight v) * (6682760737388478 / 2 ^ 53)),
     sourceHeight = real (videoHeight v)\<rparr>"
  using videoRatio_gt_exact[OF assms(1,2)] assms(3)
  by (simp only: centerCrop_def Let_def of_nat_numeral t_val if_True)

lemma centerCrop_tall:
  assumes "0 < videoHeight v" "videoHeight v < 2 ^ 32"
    and "\<not> 460 / 620 < real (videoWidth v) / real (videoHeight v)"
  shows "centerCrop v 460 620 =
    \<lparr>sourceX = 0,
     sourceY = double (double (real (videoHeight v)
         - double (real (videoWidth v) / (6682760737388478 / 2 ^ 53))) / 2),
     sourceWidth = real (videoWidth v),
     sourceHeight = double (real (videoWidth v) / (6682760737388478 / 2 ^ 53))\<rparr>"
  using videoRatio_gt_exact[OF assms(1,2)] assms(3)
  by (simp only: centerCrop_def Let_def of_nat_numeral t_val if_False)

lemma centerCrop_bounds:
  assumes "0 < videoWidth v" "0 < videoHeight v" "videoHeight v < 2 ^ 32"
  shows "(real (videoWidth v) / real (videoHeight v) > 460 / 620 \<longrightarrow>
        sourceY (centerCrop v 460 620) = 0 \<and>
        sourceHeight (centerCrop v 460 620) = real (videoHeight v) \<and>
        \<bar>sourceX (centerCrop v 460 620) + sourceWidth (centerCrop v 460 620) / 2
           - real (videoWidth v) / 2\<bar>
          \<le> \<bar>real (videoWidth v) - sourceWidth (centerCrop v 460 620)\<bar> / 2 ^ 54) \<and>
     (\<not> real (videoWidth v) / real (videoHeight v) > 460 / 620 \<longrightarrow>
        sourceX (centerCrop v 460 620) = 0 \<and>
        sourceWidth (centerCrop v 460 620) = real (videoWidth v) \<and>
        \<bar>sourceY (centerCrop v 460 620) + sourceHeight (centerCrop v 460 620) / 2
           - real (videoHeight v) / 2\<bar>
          \<le> \<bar>real (videoHeight v) - sourceHeight (centerCrop v 460 620)\<bar> / 2 ^ 54) \<and>
     \<bar>sourceWidth (centerCrop v 460 620) / sourceHeight (centerCrop v 460 620) - 460 / 620\<bar>
       \<le> 460 / 620 / 2 ^ 51"
proof (cases "460 / 620 < real (videoWidth v) / real (videoHeight v)")
  case True
  define sW where "sW = double (real (videoHeight v) * (6682760737388478 / 2 ^ 53))"
  have c: "centerCrop v 460 620 =
      \<lparr>sourceX = double (double (real (videoWidth v) - sW) / 2), sourceY = 0,
       sourceWidth = sW, sourceHeight = real (videoHeight v)\<rparr>"
    unfolding sW_def by (rule centerCrop_wide[OF assms(2,3) True])
  have "\<bar>double (double (real (videoWidth v) - sW) / 2) + sW / 2
      - (real (videoWidth v) - sW + sW) / 2\<bar> \<le> \<bar>real (videoWidth v) - sW\<bar> / 2 ^ 54"
    by (rule double_center)
  then have ce: "\<bar>double (double (real (videoWidth v) - sW) / 2) + sW / 2
      - real (videoWidth v) / 2\<bar> \<le> \<bar>real (videoWidth v) - sW\<bar> / 2 ^ 54"
    by simp
  have ra: "\<bar>sW / real (videoHeight v) - 460 / 620\<bar> \<le> 460 / 620 / 2 ^ 51"
    unfolding sW_def using assms(2) by (intro ratio_wide) simp
  show ?thesis using True ce ra unfolding c by simp
next
  case False
  define sH where "sH = double (real (videoWidth v) / (6682760737388478 / 2 ^ 53))"
  have c: "centerCrop v 460 620 =
      \<lparr>sourceX = 0, sourceY = double (double (real (videoHeight v) - sH) / 2),
       sourceWidth = real (videoWidth v), sourceHeight = sH\<rparr>"
    unfolding sH_def by (rule centerCrop_tall[OF assms(2,3) False])
  have "\<bar>double (double (real (videoHeight v) - sH) / 2) + sH / 2
      - (real (videoHeight v) - sH + sH) / 2\<bar> \<le> \<bar>real (videoHeight v) - sH\<bar> / 2 ^ 54"
    by (rule double_center)
  then have ce: "\<bar>double (double (real (videoHeight v) - sH) / 2) + sH / 2
      - real (videoHeight v) / 2\<bar> \<le> \<bar>real (videoHeight v) - sH\<bar> / 2 ^ 54"
    by simp
  have ra: "\<bar>real (videoWidth v) / sH - 460 / 620\<bar> \<le> 460 / 620 / 2 ^ 51"
    unfolding sH_def using assms(1) by (intro ratio_tall(2)) simp
  show ?thesis using False ce ra unfolding c by simp
qed

text \<open>The crop at three sizes of the video, as the program computes it.\<close>

lemma ratio_1280_720: "double (1280 / 720) = 8006399337547548 / 2 ^ 52"
  using double_evalI[of 0 "1280 / 720" 8006399337547548]
  by (simp add: round_even_def Let_def power_int_minus)

lemma sW_1280_720: "double (720 * (6682760737388478 / 2 ^ 53)) = 4698816143476274 / 2 ^ 43"
  using double_evalI[of 9 "720 * (6682760737388478 / 2 ^ 53)" 4698816143476274]
  by (simp add: round_even_def Let_def power_int_minus)

lemma D_1280_720: "double (1280 - 4698816143476274 / 2 ^ 43) = 6560182924949966 / 2 ^ 43"
  using double_evalI[of 9 "1280 - 4698816143476274 / 2 ^ 43" 6560182924949966]
  by (simp add: round_even_def Let_def power_int_minus)

lemma sx_1280_720: "double (6560182924949966 / 2 ^ 43 / 2) = 6560182924949966 / 2 ^ 44"
  using double_evalI[of 8 "6560182924949966 / 2 ^ 43 / 2" 6560182924949966]
  by (simp add: round_even_def Let_def power_int_minus)

lemma crop_1280_720:
  "centerCrop \<lparr>videoWidth = 1280, videoHeight = 720, srcObject = s\<rparr> 460 620 =
     \<lparr>sourceX = 6560182924949966 / 2 ^ 44, sourceY = 0,
      sourceWidth = 4698816143476274 / 2 ^ 43, sourceHeight = 720\<rparr>"
  apply (simp only: centerCrop_def videoRatio_gt_def Let_def HTMLVideoElement.select_convs
      of_nat_numeral t_val ratio_1280_720 sW_1280_720 D_1280_720 sx_1280_720)
  apply simp
  done

lemma flratio_1280_720: "double (4698816143476274 / 2 ^ 43 / 720) = 6682760737388479 / 2 ^ 53"
  using double_evalI[of "- 1" "4698816143476274 / 2 ^ 43 / 720" 6682760737388479]
  by (simp add: round_even_def Let_def power_int_minus)

lemma ratio_720_1280: "double (720 / 1280) = 5066549580791808 / 2 ^ 53"
  using double_evalI[of "- 1" "720 / 1280" 5066549580791808]
  by (simp add: round_even_def Let_def power_int_minus)

lemma sH_720_1280: "double (720 / (6682760737388478 / 2 ^ 53)) = 8536034619812285 / 2 ^ 43"
  using double_evalI[of 9 "720 / (6682760737388478 / 2 ^ 53)" 8536034619812285]
  by (simp add: round_even_def Let_def power_int_minus)

lemma D_720_1280: "double (1280 - 8536034619812285 / 2 ^ 43) = 5445928897227910 / 2 ^ 44"
  using double_evalI[of 8 "1280 - 8536034619812285 / 2 ^ 43" 5445928897227910]
  by (simp add: round_even_def Let_def power_int_minus)

lemma sy_720_1280: "double (5445928897227910 / 2 ^ 44 / 2) = 5445928897227910 / 2 ^ 45"
  using double_evalI[of 7 "5445928897227910 / 2 ^ 44 / 2" 5445928897227910]
  by (simp add: round_even_def Let_def power_int_minus)

lemma crop_720_1280:
  "centerCrop \<lparr>videoWidth = 720, videoHeight = 1280, srcObject = s\<rparr> 460 620 =
     \<lparr>sourceX = 0, sourceY = 5445928897227910 / 2 ^ 45,
      sourceWidth = 720, sourceHeight = 8536034619812285 / 2 ^ 43\<rparr>"
  apply (simp only: centerCrop_def videoRatio_gt_def Let_def HTMLVideoElement.select_convs
      of_nat_numeral t_val ratio_720_1280 sH_720_1280 D_720_1280 sy_720_1280)
  apply simp
  done

lemma ratio_1920_480: "double (1920 / 480) = 4"
  using double_numeral[of "Num.Bit0 (Num.Bit0 Num.One)"] by simp

lemma sW_1920_480: "double (480 * (6682760737388478 / 2 ^ 53)) = 6265088191301698 / 2 ^ 44"
  using double_evalI[of 8 "480 * (6682760737388478 / 2 ^ 53)" 6265088191301698]
  by (simp add: round_even_def Let_def power_int_minus)

lemma D_1920_480: "double (1920 - 6265088191301698 / 2 ^ 44) = 6877977253494256 / 2 ^ 42"
  using double_evalI[of 10 "1920 - 6265088191301698 / 2 ^ 44" 6877977253494256]
  by (simp add: round_even_def Let_def power_int_minus)

lemma sx_1920_480: "double (6877977253494256 / 2 ^ 42 / 2) = 6877977253494256 / 2 ^ 43"
  using double_evalI[of 9 "6877977253494256 / 2 ^ 42 / 2" 6877977253494256]
  by (simp add: round_even_def Let_def power_int_minus)

lemma crop_1920_480:
  "centerCrop \<lparr>videoWidth = 1920, videoHeight = 480, srcObject = s\<rparr> 460 620 =
     \<lparr>sourceX = 6877977253494256 / 2 ^ 43, sourceY = 0,
      sourceWidth = 6265088191301698 / 2 ^ 44, sourceHeight = 480\<rparr>"
  apply (simp only: centerCrop_def videoRatio_gt_def Let_def HTMLVideoElement.select_convs
      of_nat_numeral t_val ratio_1920_480 sW_1920_480 D_1920_480 sx_1920_480)
  apply simp
  done

text \<open>
  For a video of 1920 by 480 the program's \<open>sourceX\<close> is 781.9354838709678 and its
  \<open>sourceWidth\<close> is 356.1290322580645. The centre of that crop is \<open>1 / 2 ^ 44\<close> to the right
  of 960; only when the sum is itself computed in binary64 does it round back to 960.
\<close>

lemma centre_1920_480:
  "(6877977253494256 / 2 ^ 43 + 6265088191301698 / 2 ^ 44 / 2 :: real) = 960 + 1 / 2 ^ 44"
  "double (6877977253494256 / 2 ^ 43 + 6265088191301698 / 2 ^ 44 / 2) = 960"
  using double_evalI[of 9 "6877977253494256 / 2 ^ 43 + 6265088191301698 / 2 ^ 44 / 2"
      8444249301319680]
  by (simp_all add: round_even_def Let_def power_int_minus)

text \<open>
  C3. The claim says that the centre of the crop equals the centre of the frame and that
  the ratio of its width and height equals 460/620. The program computes in binary64. For
  a video of 1280 by 720 the crop is 720 high and \<open>4698816143476274 / 2 ^ 43\<close> wide
  (534.1935483870968): the quotient is not 460/620, and rounded to binary64 it is not the
  rounded 460/620 either. For a video of 1920 by 480 the horizontal centre of the crop,
  \<open>sourceX + sourceWidth / 2\<close>, is not 960.
\<close>

theorem capture_crop_counterexample:
  "(1280 :: real) / 720 > 460 / 620 \<and>
   sourceWidth (centerCrop \<lparr>videoWidth = 1280, videoHeight = 720, srcObject = None\<rparr> 460 620)
     / sourceHeight (centerCrop \<lparr>videoWidth = 1280, videoHeight = 720, srcObject = None\<rparr> 460 620)
     \<noteq> 460 / 620 \<and>
   double (sourceWidth (centerCrop \<lparr>videoWidth = 1280, videoHeight = 720, srcObject = None\<rparr> 460 620)
     / sourceHeight (centerCrop \<lparr>videoWidth = 1280, videoHeight = 720, srcObject = None\<rparr> 460 620))
     \<noteq> double (460 / 620) \<and>
   (1920 :: real) / 480 > 460 / 620 \<and>
   sourceX (centerCrop \<lparr>videoWidth = 1920, videoHeight = 480, srcObject = None\<rparr> 460 620)
     + sourceWidth (centerCrop \<lparr>videoWidth = 1920, videoHeight = 480, srcObject = None\<rparr> 460 620) / 2
     \<noteq> 1920 / 2"
  apply (simp only: crop_1280_720 crop_1920_480 Crop.select_convs flratio_1280_720 t_val)
  apply simp
  done

text \<open>
  C3, as the code has it. For a video of positive width and height (the height, an unsigned
  32 bit integer, below \<open>2 ^ 32\<close>), the crop that a capture draws: if the ratio of the video
  is greater than 460/620, the crop starts at the top, has the full height of the frame,
  and its horizontal centre is the centre of the frame up to the rounding of one
  subtraction, at most \<open>\<bar>videoWidth - sourceWidth\<bar> / 2 ^ 54\<close>; otherwise it starts at the
  left, has the full width, and its vertical centre is the centre of the frame up to
  \<open>\<bar>videoHeight - sourceHeight\<bar> / 2 ^ 54\<close>. In both cases its width divided by its height
  is 460/620 up to a relative error of \<open>1 / 2 ^ 51\<close>.
\<close>

theorem capture_crop:
  assumes "videoRef c = Some v" "canvasRef c = Some cv" "cameraBodyRef c = Some r"
    and "0 < videoWidth v" "0 < videoHeight v" "videoHeight v < 2 ^ 32"
  shows "\<exists>cv' d. canvasRef (fst (handleCapture t True c)) = Some cv' \<and> drawn cv' = Some d \<and>
     (real (videoWidth v) / real (videoHeight v) > 460 / 620 \<longrightarrow>
        sourceY (src d) = 0 \<and> sourceHeight (src d) = real (videoHeight v) \<and>
        \<bar>sourceX (src d) + sourceWidth (src d) / 2 - real (videoWidth v) / 2\<bar>
          \<le> \<bar>real (videoWidth v) - sourceWidth (src d)\<bar> / 2 ^ 54) \<and>
     (\<not> real (videoWidth v) / real (videoHeight v) > 460 / 620 \<longrightarrow>
        sourceX (src d) = 0 \<and> sourceWidth (src d) = real (videoWidth v) \<and>
        \<bar>sourceY (src d) + sourceHeight (src d) / 2 - real (videoHeight v) / 2\<bar>
          \<le> \<bar>real (videoHeight v) - sourceHeight (src d)\<bar> / 2 ^ 54) \<and>
     \<bar>sourceWidth (src d) / sourceHeight (src d) - 460 / 620\<bar> \<le> 460 / 620 / 2 ^ 51"
  using centerCrop_bounds[OF assms(4-6)]
  by (simp add: handleCapture_canvas[OF assms(1-3)])

theorem capture_crop_witness:
  "(0::nat) < 1280 \<and> (0::nat) < 720 \<and> (720::nat) < 2 ^ 32 \<and> (1280::real) / 720 > 460 / 620 \<and>
   map_option src (drawn (the (canvasRef (fst (handleCapture (\<lambda>cv. ''data:image/jpeg'') True
     (Camera_init \<lparr>videoWidth = 1280, videoHeight = 720, srcObject = Some ''s''\<rparr>
       \<lparr>width_canvas = 300, height_canvas = 150, transform = (1, 0), drawn = None\<rparr>
       \<lparr>left_rect = 40, top_rect = 500, width_rect = 340, height_rect = 300\<rparr>))))))
     = Some \<lparr>sourceX = 6560182924949966 / 2 ^ 44, sourceY = 0,
         sourceWidth = 4698816143476274 / 2 ^ 43, sourceHeight = 720\<rparr> \<and>
   \<bar>(4698816143476274 / 2 ^ 43) / 720 - 460 / 620 :: real\<bar> \<le> 460 / 620 / 2 ^ 51 \<and>
   (0::nat) < 720 \<and> (0::nat) < 1280 \<and> (1280::nat) < 2 ^ 32 \<and> \<not> (720::real) / 1280 > 460 / 620 \<and>
   map_option src (drawn (the (canvasRef (fst (handleCapture (\<lambda>cv. ''data:image/jpeg'') True
     (Camera_init \<lparr>videoWidth = 720, videoHeight = 1280, srcObject = Some ''s''\<rparr>
       \<lparr>width_canvas = 300, height_canvas = 150, transform = (1, 0), drawn = None\<rparr>
       \<lparr>left_rect = 40, top_rect = 500, width_rect = 340, height_rect = 300\<rparr>))))))
     = Some \<lparr>sourceX = 0, sourceY = 5445928897227910 / 2 ^ 45,
         sourceWidth = 720, sourceHeight = 8536034619812285 / 2 ^ 43\<rparr> \<and>
   \<bar>720 / (8536034619812285 / 2 ^ 43) - 460 / 620 :: real\<bar> \<le> 460 / 620 / 2 ^ 51"
  using capture_crop [of
      "Camera_init \<lparr>videoWidth = 1280, videoHeight = 720, srcObject = Some ''s''\<rparr>
       \<lparr>width_canvas = 300, height_canvas = 150, transform = (1, 0), drawn = None\<rparr>
       \<lparr>left_rect = 40, top_rect = 500, width_rect = 340, height_rect = 300\<rparr>"
      "\<lparr>videoWidth = 1280, videoHeight = 720, srcObject = Some ''s''\<rparr>"
      "\<lparr>width_canvas = 300, height_canvas = 150, transform = (1, 0), drawn = None\<rparr>"
      "\<lparr>left_rect = 40, top_rect = 500, width_rect = 340, height_rect = 300\<rparr>"
      "(\<lambda>cv. ''data:image/jpeg'')"]
    capture_crop [of
      "Camera_init \<lparr>videoWidth = 720, videoHeight = 1280, srcObject = Some ''s''\<rparr>
       \<lparr>width_canvas = 300, height_canvas = 150, transform = (1, 0), drawn = None\<rparr>
       \<lparr>left_rect = 40, top_rect = 500, width_rect = 340, height_rect = 300\<rparr>"
      "\<lparr>videoWidth = 720, videoHeight = 1280, srcObject = Some ''s''\<rparr>"
      "\<lparr>width_canvas = 300, height_canvas = 150, transform = (1, 0), drawn = None\<rparr>"
      "\<lparr>left_rect = 40, top_rect = 500, width_rect = 340, height_rect = 300\<rparr>"
      "(\<lambda>cv. ''data:image/jpeg'')"]
  by (simp add: Camera_init_def handleCapture_def crop_1280_720 crop_720_1280
      translate_def scale_def drawImage_def Let_def)

subsection \<open>Failure of the camera\<close>

text \<open>
  C9. When \<open>getUserMedia\<close> rejects, \<open>setupCamera\<close> returns a state: the error is written to
  the console and \<open>permissionError\<close> is set. After that, under every sequence of shutter
  clicks and timers, \<open>permissionError\<close> stays set, the lens shows the placeholder, the
  component is not streaming, \<open>getUserMedia\<close> has been called once and not again, and a
  click on the shutter changes nothing and hands no photo over. The handlers of the wall
  do not read the state of the camera.
\<close>

theorem setupCamera_failure:
  "permissionError (Camera_run t g es (setupCamera (Inl err) (Camera_init v cv r))) \<and>
   lens_of (Camera_run t g es (setupCamera (Inl err) (Camera_init v cv r))) = CameraOFF \<and>
   \<not> isStreaming (Camera_run t g es (setupCamera (Inl err) (Camera_init v cv r))) \<and>
   console (Camera_run t g es (setupCamera (Inl err) (Camera_init v cv r))) =
     [[''Error accessing camera:'', err]] \<and>
   requests (Camera_run t g es (setupCamera (Inl err) (Camera_init v cv r))) = 1 \<and>
   handleCapture t g (Camera_run t g es (setupCamera (Inl err) (Camera_init v cv r))) =
     (Camera_run t g es (setupCamera (Inl err) (Camera_init v cv r)), None)"
proof -
  let ?c = "setupCamera (Inl err) (Camera_init v cv r)"
  have c: "permissionError ?c" "videoRef ?c = None" "\<not> isStreaming ?c"
    "console ?c = [[''Error accessing camera:'', err]]"
    "requests ?c = 1"
    by (simp_all add: setupCamera_def setPermissionError_def Camera_init_def Let_def)
  have "videoRef (Camera_run t g es ?c) = None"
    using c by (simp add: Camera_run_keeps)
  then have "handleCapture t g (Camera_run t g es ?c) = (Camera_run t g es ?c, None)"
    by (simp add: handleCapture_def)
  then show ?thesis
    using c by (simp add: Camera_run_keeps lens_of_def)
qed

end
